theory Spec2Isabelle
  imports Main "HOL-Library.Word"
begin

section \<open>Words, seed material and the collaborators outside the file\<close>

text \<open>
  The source is \<^verbatim>\<open>include/boost/beast/websocket/detail/impl/prng.ipp\<close>.
  \<^verbatim>\<open>std::uint32_t\<close> and \<^verbatim>\<open>std::uint64_t\<close> are words of that width
  (\<open>+\<close> wraps); an object address and a thread are natural numbers; a
  \<^verbatim>\<open>std::seed_seq\<close> is the list of 32-bit values it stores.
\<close>

type_synonym u32 = "32 word"
type_synonym u64 = "64 word"
type_synonym addr = nat
type_synonym thread = nat
type_synonym seed_seq = "u32 list"

text \<open>
  \<^verbatim>\<open>struct data { std::uint32_t v[8]; }\<close> inside \<^verbatim>\<open>prng_seed\<close>: exactly
  eight words, \<open>v0\<close> to \<open>v7\<close> for \<^verbatim>\<open>v[0]\<close> to \<^verbatim>\<open>v[7]\<close>.
\<close>

datatype data =
  Data (v0: u32) (v1: u32) (v2: u32) (v3: u32) (v4: u32) (v5: u32) (v6: u32) (v7: u32)

text \<open>
  Modelled from the spec: the class \<^verbatim>\<open>beast::detail::chacha<20>\<close> of
  \<^verbatim>\<open>boost/beast/core/detail/chacha.hpp\<close> is not among the sources; the spec treats
  it as an opaque keyed generator with the interface "seed material + counter \<rightarrow>
  stream of words". It is a parameter of the model: \<open>chacha_ctor pv n\<close> is the state
  built by \<^verbatim>\<open>chacha<20>(pv, n)\<close>, and \<open>chacha_call\<close> is its \<^verbatim>\<open>operator()\<close>, the
  word produced and the state after.

  The standard library's entropy source and seed sequence are parameters too:
  \<^item> \<open>generate\<close>: \<^verbatim>\<open>std::seed_seq::generate(v, v+8)\<close>, the eight words a seed
    sequence produces;
  \<^item> \<open>random_device\<close>: the \<open>i\<close>-th word a fresh \<^verbatim>\<open>std::random_device\<close> yields
    (the braced list \<^verbatim>\<open>{g(), ..., g()}\<close> is evaluated left to right). The source
    has no failure path for it.
\<close>

record 'c env =
  generate :: "seed_seq \<Rightarrow> data"
  random_device :: "nat \<Rightarrow> u32"
  chacha_ctor :: "data \<Rightarrow> u64 \<Rightarrow> 'c"
  chacha_call :: "'c \<Rightarrow> u32 \<times> 'c"

section \<open>Function-local statics\<close>

text \<open>
  The variables of static storage duration in the file:
  \<^item> \<open>seed_d\<close>: \<^verbatim>\<open>static data const d(ss)\<close> of \<^verbatim>\<open>prng_seed\<close>; \<open>None\<close> until its
    initialisation has run;
  \<^item> one \<^verbatim>\<open>static std::atomic<std::uint64_t> nonce{0}\<close> in the constructor
    lambda of each of the four local classes: \<open>nonce_fast\<close> and \<open>nonce_secure\<close> for
    \<^verbatim>\<open>fast_prng\<close> and \<^verbatim>\<open>secure_prng\<close> of \<^verbatim>\<open>make_prng_no_tls\<close>,
    \<open>nonce_tls_fast\<close> and \<open>nonce_tls_secure\<close> for those of \<^verbatim>\<open>make_prng_tls\<close>.
\<close>

record statics =
  seed_d :: "data option"
  nonce_fast :: u64
  nonce_secure :: u64
  nonce_tls_fast :: u64
  nonce_tls_secure :: u64

definition statics_init :: statics where
  "statics_init =
     \<lparr>seed_d = None, nonce_fast = 0, nonce_secure = 0,
      nonce_tls_fast = 0, nonce_tls_secure = 0\<rparr>"

section \<open>Seed derivation: \<^verbatim>\<open>prng_seed\<close>\<close>

text \<open>
  The constructor \<^verbatim>\<open>data(std::seed_seq* pss)\<close>: with a null pointer, eight words of
  a \<^verbatim>\<open>std::random_device\<close> seed a local sequence that generates \<open>v\<close>; otherwise
  the caller's sequence generates \<open>v\<close>.
\<close>

definition data_ctor :: "'c env \<Rightarrow> seed_seq option \<Rightarrow> data" where
  "data_ctor E pss =
     (case pss of
        None \<Rightarrow>
          generate E
            [random_device E 0, random_device E 1, random_device E 2, random_device E 3,
             random_device E 4, random_device E 5, random_device E 6, random_device E 7]
      | Some ss \<Rightarrow> generate E ss)"

text \<open>
  \<^verbatim>\<open>prng_seed(ss)\<close>: the static \<open>d\<close> is initialised by the first call that reaches
  its declaration and is left alone afterwards; the call returns \<open>d.v\<close>.
\<close>

definition prng_seed :: "'c env \<Rightarrow> seed_seq option \<Rightarrow> statics \<Rightarrow> data \<times> statics" where
  "prng_seed E ss g =
     (case seed_d g of
        None \<Rightarrow> (let x = data_ctor E ss in (x, g\<lparr>seed_d := Some x\<rparr>))
      | Some x \<Rightarrow> (x, g))"

text \<open>A sequence of calls in one process, with the value each call returns.\<close>

fun prng_seed_calls :: "'c env \<Rightarrow> seed_seq option list \<Rightarrow> statics \<Rightarrow> data list \<times> statics" where
  "prng_seed_calls E [] g = ([], g)"
| "prng_seed_calls E (ss # rest) g =
     (let (x, g1) = prng_seed E ss g;
          (xs, g2) = prng_seed_calls E rest g1
      in (x # xs, g2))"

section \<open>The Fast engine: \<^verbatim>\<open>std::minstd_rand\<close>\<close>

text \<open>
  \<^verbatim>\<open>std::minstd_rand\<close> is not code of the repository: it is the standard
  library's \<^verbatim>\<open>linear_congruential_engine<uint_fast32_t, 48271, 0, 2147483647>\<close>,
  modelled here as the C++ standard defines it. Its state is a number \<open>x\<close>.
  Constructed from a seed \<open>s\<close>, the state is \<open>s mod m\<close>, or 1 when that is 0 (the
  increment \<open>c\<close> is 0); each call replaces \<open>x\<close> by \<open>(a * x + c) mod m\<close> and returns it.
\<close>

type_synonym minstd_rand = nat

definition minstd_m :: nat where
  "minstd_m = 2147483647"

definition minstd_a :: nat where
  "minstd_a = 48271"

definition minstd_rand_ctor :: "u32 \<Rightarrow> minstd_rand" where
  "minstd_rand_ctor s = (if unat s mod minstd_m = 0 then 1 else unat s mod minstd_m)"

definition minstd_rand_call :: "minstd_rand \<Rightarrow> nat \<times> minstd_rand" where
  "minstd_rand_call x = (let x' = (minstd_a * x) mod minstd_m in (x', x'))"

text \<open>
  \<^verbatim>\<open>fast_prng::operator()\<close> (the same in both factories): \<^verbatim>\<open>return r_()\<close>,
  converted to \<^verbatim>\<open>value_type\<close>. That type is declared in \<^verbatim>\<open>prng.hpp\<close>, which is
  not among the sources; by the spec it is the unsigned 32-bit word.
\<close>

definition fast_prng_call :: "minstd_rand \<Rightarrow> u32 \<times> minstd_rand" where
  "fast_prng_call x = (let (y, x') = minstd_rand_call x in (word_of_nat y, x'))"

text \<open>\<^verbatim>\<open>secure_prng::operator()\<close>: \<^verbatim>\<open>return r_()\<close> on the cipher state.\<close>

definition secure_prng_call :: "'c env \<Rightarrow> 'c \<Rightarrow> u32 \<times> 'c" where
  "secure_prng_call E c = chacha_call E c"

text \<open>The first \<open>n\<close> words a caller draws from an engine state by repeated calls.\<close>

fun draw :: "('r \<Rightarrow> u32 \<times> 'r) \<Rightarrow> nat \<Rightarrow> 'r \<Rightarrow> u32 list" where
  "draw f 0 x = []"
| "draw f (Suc n) x = (let (y, x') = f x in y # draw f n x')"

text \<open>The engine state after \<open>n\<close> calls.\<close>

fun advance :: "('r \<Rightarrow> u32 \<times> 'r) \<Rightarrow> nat \<Rightarrow> 'r \<Rightarrow> 'r" where
  "advance f 0 x = x"
| "advance f (Suc n) x = advance f n (snd (f x))"

section \<open>Seeding the generator classes\<close>

text \<open>
  The lambda that seeds \<^verbatim>\<open>r_\<close> in \<^verbatim>\<open>make_prng_no_tls::fast_prng\<close>:
  \<^verbatim>\<open>pv = prng_seed()\<close>, then
  \<^verbatim>\<open>static_cast<value_type>(pv[0] + ... + pv[7] + ++nonce)\<close>. The eight words are
  added as 32-bit words, the sum is widened to 64 bits for the addition of the
  incremented counter, and the cast keeps the low 32 bits. The constructors call
  \<^verbatim>\<open>prng_seed()\<close> without an argument; its default, declared in \<^verbatim>\<open>prng.hpp\<close>,
  is taken to be the null pointer (by the spec, seed material is derived from the
  entropy source when no sequence is supplied).
\<close>

definition fast_seed_value :: "data \<Rightarrow> u64 \<Rightarrow> u32" where
  "fast_seed_value pv n =
     ucast ((ucast (v0 pv + v1 pv + v2 pv + v3 pv + v4 pv + v5 pv + v6 pv + v7 pv) :: u64) + n)"

definition fast_prng_seed :: "'c env \<Rightarrow> statics \<Rightarrow> u32 \<times> statics" where
  "fast_prng_seed E g =
     (let (pv, g1) = prng_seed E None g;
          n = nonce_fast g1 + 1;
          g2 = g1\<lparr>nonce_fast := n\<rparr>
      in (fast_seed_value pv n, g2))"

text \<open>The same lambda in \<^verbatim>\<open>make_prng_tls::fast_prng\<close>, with that class's counter.\<close>

definition tls_fast_prng_seed :: "'c env \<Rightarrow> statics \<Rightarrow> u32 \<times> statics" where
  "tls_fast_prng_seed E g =
     (let (pv, g1) = prng_seed E None g;
          n = nonce_tls_fast g1 + 1;
          g2 = g1\<lparr>nonce_tls_fast := n\<rparr>
      in (fast_seed_value pv n, g2))"

section \<open>The generator classes of \<^verbatim>\<open>make_prng_no_tls\<close>\<close>

text \<open>
  \<^verbatim>\<open>fast_prng\<close> and \<^verbatim>\<open>secure_prng\<close> of \<^verbatim>\<open>make_prng_no_tls\<close> have the same
  members: \<^verbatim>\<open>int refs_ = 0\<close>, the engine \<^verbatim>\<open>r_\<close> and the public link
  \<^verbatim>\<open>next = nullptr\<close>. They differ in the engine type \<open>'r\<close> only. \<open>refs\<close> is an
  unbounded integer: the count moves by one per handle, far from the range of
  \<^verbatim>\<open>int\<close>.
\<close>

record 'r pooled =
  refs :: int
  rng :: 'r
  nxt :: "addr option"

definition fast_prng_ctor :: "'c env \<Rightarrow> statics \<Rightarrow> minstd_rand pooled \<times> statics" where
  "fast_prng_ctor E g =
     (let (s, g1) = fast_prng_seed E g
      in (\<lparr>refs = 0, rng = minstd_rand_ctor s, nxt = None\<rparr>, g1))"

text \<open>
  \<^verbatim>\<open>secure_prng()\<close>: \<^verbatim>\<open>r_(prng_seed(), ++nonce)\<close> with the counter of this
  class. The two arguments touch different statics, so their order does not matter.
\<close>

definition secure_prng_ctor :: "'c env \<Rightarrow> statics \<Rightarrow> 'c pooled \<times> statics" where
  "secure_prng_ctor E g =
     (let (pv, g1) = prng_seed E None g;
          n = nonce_secure g1 + 1;
          g2 = g1\<lparr>nonce_secure := n\<rparr>
      in (\<lparr>refs = 0, rng = chacha_ctor E pv n, nxt = None\<rparr>, g2))"

section \<open>The pool: \<^verbatim>\<open>prng_pool<T>\<close>\<close>

text \<open>
  \<open>head\<close> is the member \<^verbatim>\<open>T* head_\<close> (\<open>None\<close> for \<^verbatim>\<open>nullptr\<close>). \<open>objs\<close> is the
  store of the \<open>T\<close> objects that \<open>acquire\<close> has constructed in memory from
  \<^verbatim>\<open>aligned_alloc\<close>, by address: \<open>T\<close> is local to \<^verbatim>\<open>make_prng_no_tls\<close>, so
  these are all the objects of the class. The mutex \<^verbatim>\<open>m_\<close> makes each critical
  section one step and is not modelled further.

  A pointer to an address that holds no object does not arise from the operations
  below. For such a pointer a read yields null (or 0) and a write is dropped.
\<close>

record 'r prng_pool =
  head :: "addr option"
  objs :: "addr \<Rightarrow> 'r pooled option"

definition prng_pool_init :: "'r prng_pool" where
  "prng_pool_init = \<lparr>head = None, objs = (\<lambda>_. None)\<rparr>"

text \<open>\<^verbatim>\<open>head_->next\<close>.\<close>

definition next_of :: "'r prng_pool \<Rightarrow> addr \<Rightarrow> addr option" where
  "next_of P p = (case objs P p of None \<Rightarrow> None | Some t \<Rightarrow> nxt t)"

text \<open>\<^verbatim>\<open>prng_pool::release(T& t)\<close>: \<^verbatim>\<open>t.next = head_; head_ = &t;\<close>.\<close>

definition prng_pool_release :: "addr \<Rightarrow> 'r prng_pool \<Rightarrow> 'r prng_pool" where
  "prng_pool_release p P =
     (case objs P p of
        None \<Rightarrow> P\<lparr>head := Some p\<rparr>
      | Some t \<Rightarrow> P\<lparr>objs := (objs P)(p \<mapsto> t\<lparr>nxt := head P\<rparr>), head := Some p\<rparr>)"

text \<open>\<^verbatim>\<open>acquire() noexcept override\<close> of both classes: \<^verbatim>\<open>++refs_; return *this;\<close>.\<close>

definition pooled_acquire :: "addr \<Rightarrow> 'r prng_pool \<Rightarrow> addr \<times> 'r prng_pool" where
  "pooled_acquire p P =
     (case objs P p of
        None \<Rightarrow> (p, P)
      | Some t \<Rightarrow> (p, P\<lparr>objs := (objs P)(p \<mapsto> t\<lparr>refs := refs t + 1\<rparr>)\<rparr>))"

text \<open>
  \<^verbatim>\<open>release() noexcept override\<close> of both classes:
  \<^verbatim>\<open>if(--refs_ == 0) prng_pool<T>::instance().release(*this);\<close>.
\<close>

definition pooled_release :: "addr \<Rightarrow> 'r prng_pool \<Rightarrow> 'r prng_pool" where
  "pooled_release p P =
     (case objs P p of
        None \<Rightarrow> P
      | Some t \<Rightarrow>
          (let P1 = P\<lparr>objs := (objs P)(p \<mapsto> t\<lparr>refs := refs t - 1\<rparr>)\<rparr>
           in if refs t - 1 = 0 then prng_pool_release p P1 else P1))"

text \<open>
  \<^verbatim>\<open>operator()() noexcept override\<close>: \<^verbatim>\<open>return r_();\<close>, with the engine's call
  \<open>f\<close> (\<open>fast_prng_call\<close> or \<open>secure_prng_call E\<close>).
\<close>

definition pooled_call :: "('r \<Rightarrow> u32 \<times> 'r) \<Rightarrow> addr \<Rightarrow> 'r prng_pool \<Rightarrow> u32 \<times> 'r prng_pool" where
  "pooled_call f p P =
     (case objs P p of
        None \<Rightarrow> (0, P)
      | Some t \<Rightarrow> (let (y, x) = f (rng t) in (y, P\<lparr>objs := (objs P)(p \<mapsto> t\<lparr>rng := x\<rparr>)\<rparr>)))"

subsection \<open>The handle\<close>

text \<open>
  Modelled from the spec: the handle class \<^verbatim>\<open>prng::ref\<close> is declared in
  \<^verbatim>\<open>prng.hpp\<close>, which is not among the sources. By the spec a handle wraps one
  instance; creating a handle over an instance (also by copying a handle) calls the
  instance's \<open>acquire\<close> ("reference count set/incremented to 1", "increments the
  instance's reference count and returns a view onto the same instance"), giving the
  handle up calls its \<open>release\<close>, and "next value" calls its \<^verbatim>\<open>operator()\<close>. The
  functions take the virtual member of the wrapped object as their first argument.
\<close>

definition ref_ctor :: "('p \<Rightarrow> 's \<Rightarrow> 'p \<times> 's) \<Rightarrow> 'p \<Rightarrow> 's \<Rightarrow> 'p \<times> 's" where
  "ref_ctor acquire p s = acquire p s"

definition ref_dtor :: "('p \<Rightarrow> 's \<Rightarrow> 's) \<Rightarrow> 'p \<Rightarrow> 's \<Rightarrow> 's" where
  "ref_dtor release p s = release p s"

definition ref_call :: "('p \<Rightarrow> 's \<Rightarrow> u32 \<times> 's) \<Rightarrow> 'p \<Rightarrow> 's \<Rightarrow> u32 \<times> 's" where
  "ref_call call p s = call p s"

subsection \<open>\<^verbatim>\<open>prng_pool::acquire\<close>\<close>

text \<open>
  The thrown \<^verbatim>\<open>std::bad_alloc\<close> is the only error; a throw undoes nothing, so
  the state after the call is returned beside the result in both cases. \<open>T\<close> is
  the constructor \<^verbatim>\<open>T()\<close>, which reads and writes the statics. \<open>aligned_alloc\<close>
  is what the one call \<^verbatim>\<open>boost::alignment::aligned_alloc(16, sizeof(T))\<close> of the
  function returns, should it be reached: \<open>None\<close> for a null pointer.
\<close>

datatype error = bad_alloc

definition prng_pool_acquire ::
  "(statics \<Rightarrow> 'r pooled \<times> statics) \<Rightarrow> addr option \<Rightarrow> 'r prng_pool \<Rightarrow> statics \<Rightarrow>
     (error + addr) \<times> 'r prng_pool \<times> statics" where
  "prng_pool_acquire T aligned_alloc P g =
     (case head P of
        Some p \<Rightarrow>
          (let P1 = P\<lparr>head := next_of P p\<rparr>;
               (q, P2) = ref_ctor pooled_acquire p P1
           in (Inr q, P2, g))
      | None \<Rightarrow>
          (case aligned_alloc of
             None \<Rightarrow> (Inl bad_alloc, P, g)
           | Some p \<Rightarrow>
               (let (t, g1) = T g;
                    P1 = P\<lparr>objs := (objs P)(p \<mapsto> t)\<rparr>;
                    (q, P2) = ref_ctor pooled_acquire p P1
                in (Inr q, P2, g1))))"

text \<open>
  A caller draws \<open>n\<close> words through a handle on the object at \<open>p\<close>: the words and the
  pool after.
\<close>

fun pooled_draw ::
  "('r \<Rightarrow> u32 \<times> 'r) \<Rightarrow> nat \<Rightarrow> addr \<Rightarrow> 'r prng_pool \<Rightarrow> u32 list \<times> 'r prng_pool" where
  "pooled_draw f 0 p P = ([], P)"
| "pooled_draw f (Suc n) p P =
     (let (y, P1) = ref_call (pooled_call f) p P;
          (ys, P2) = pooled_draw f n p P1
      in (y # ys, P2))"

subsection \<open>The free list\<close>

text \<open>
  \<open>free_list P h ps\<close>: following \<^verbatim>\<open>next\<close> from the pointer \<open>h\<close> visits exactly the
  addresses \<open>ps\<close>, in order, and ends at null; each holds an object whose count is 0.
  \<open>pool_inv\<close> is the state a pool is in between operations: its \<^verbatim>\<open>head_\<close> starts
  such a list, without repetition.
\<close>

fun free_list :: "'r prng_pool \<Rightarrow> addr option \<Rightarrow> addr list \<Rightarrow> bool" where
  "free_list P h [] = (h = None)"
| "free_list P h (p # ps) =
     (h = Some p \<and>
      (case objs P p of None \<Rightarrow> False | Some t \<Rightarrow> refs t = 0 \<and> free_list P (nxt t) ps))"

definition pool_inv :: "'r prng_pool \<Rightarrow> bool" where
  "pool_inv P = (\<exists>ps. distinct ps \<and> free_list P (head P) ps)"

section \<open>The generator classes of \<^verbatim>\<open>make_prng_tls\<close>\<close>

text \<open>
  \<^verbatim>\<open>fast_prng\<close> and \<^verbatim>\<open>secure_prng\<close> of \<^verbatim>\<open>make_prng_tls\<close> have the engine
  \<^verbatim>\<open>r_\<close> as their only member, so an object is its engine state.
\<close>

definition tls_fast_prng_ctor :: "'c env \<Rightarrow> statics \<Rightarrow> minstd_rand \<times> statics" where
  "tls_fast_prng_ctor E g =
     (let (s, g1) = tls_fast_prng_seed E g in (minstd_rand_ctor s, g1))"

definition tls_secure_prng_ctor :: "'c env \<Rightarrow> statics \<Rightarrow> 'c \<times> statics" where
  "tls_secure_prng_ctor E g =
     (let (pv, g1) = prng_seed E None g;
          n = nonce_tls_secure g1 + 1;
          g2 = g1\<lparr>nonce_tls_secure := n\<rparr>
      in (chacha_ctor E pv n, g2))"

section \<open>The process state and the factories\<close>

text \<open>
  The statics, the two pool singletons (\<^verbatim>\<open>prng_pool<fast_prng>::instance()\<close> and
  \<^verbatim>\<open>prng_pool<secure_prng>::instance()\<close>), and the \<^verbatim>\<open>thread_local\<close> objects
  \<^verbatim>\<open>fp\<close> and \<^verbatim>\<open>sp\<close> of \<^verbatim>\<open>make_prng_tls\<close>, one per thread, \<open>None\<close> until the
  thread first passes the declaration.
\<close>

record 'c world =
  globals :: statics
  fast_pool :: "minstd_rand prng_pool"
  secure_pool :: "'c prng_pool"
  tls_fp :: "thread \<Rightarrow> minstd_rand option"
  tls_sp :: "thread \<Rightarrow> 'c option"

definition world_init :: "'c world" where
  "world_init =
     \<lparr>globals = statics_init, fast_pool = prng_pool_init, secure_pool = prng_pool_init,
      tls_fp = (\<lambda>_. None), tls_sp = (\<lambda>_. None)\<rparr>"

text \<open>What a \<^verbatim>\<open>prng*\<close> points to: an object of one of the four classes.\<close>

datatype prng_ptr =
  Fast_no_tls addr | Secure_no_tls addr | Fast_tls thread | Secure_tls thread

text \<open>The virtual members, dispatched on the class of the object.\<close>

fun acquire :: "prng_ptr \<Rightarrow> 'c world \<Rightarrow> prng_ptr \<times> 'c world" where
  "acquire (Fast_no_tls p) w =
     (let (q, P) = pooled_acquire p (fast_pool w) in (Fast_no_tls q, w\<lparr>fast_pool := P\<rparr>))"
| "acquire (Secure_no_tls p) w =
     (let (q, P) = pooled_acquire p (secure_pool w) in (Secure_no_tls q, w\<lparr>secure_pool := P\<rparr>))"
| "acquire (Fast_tls t) w = (Fast_tls t, w)"
| "acquire (Secure_tls t) w = (Secure_tls t, w)"

fun release :: "prng_ptr \<Rightarrow> 'c world \<Rightarrow> 'c world" where
  "release (Fast_no_tls p) w = w\<lparr>fast_pool := pooled_release p (fast_pool w)\<rparr>"
| "release (Secure_no_tls p) w = w\<lparr>secure_pool := pooled_release p (secure_pool w)\<rparr>"
| "release (Fast_tls t) w = w"
| "release (Secure_tls t) w = w"

fun call :: "'c env \<Rightarrow> prng_ptr \<Rightarrow> 'c world \<Rightarrow> u32 \<times> 'c world" where
  "call E (Fast_no_tls p) w =
     (let (y, P) = pooled_call fast_prng_call p (fast_pool w) in (y, w\<lparr>fast_pool := P\<rparr>))"
| "call E (Secure_no_tls p) w =
     (let (y, P) = pooled_call (secure_prng_call E) p (secure_pool w)
      in (y, w\<lparr>secure_pool := P\<rparr>))"
| "call E (Fast_tls t) w =
     (case tls_fp w t of
        None \<Rightarrow> (0, w)
      | Some x \<Rightarrow> (let (y, x') = fast_prng_call x in (y, w\<lparr>tls_fp := (tls_fp w)(t \<mapsto> x')\<rparr>)))"
| "call E (Secure_tls t) w =
     (case tls_sp w t of
        None \<Rightarrow> (0, w)
      | Some c \<Rightarrow> (let (y, c') = secure_prng_call E c in (y, w\<lparr>tls_sp := (tls_sp w)(t \<mapsto> c')\<rparr>)))"

text \<open>
  \<^verbatim>\<open>make_prng_no_tls(secure)\<close>: the acquire of the pool of the chosen class.
  \<open>aligned_alloc\<close> is the outcome of the allocation, should the pool ask for one.
\<close>

definition make_prng_no_tls ::
  "'c env \<Rightarrow> addr option \<Rightarrow> bool \<Rightarrow> 'c world \<Rightarrow> (error + prng_ptr) \<times> 'c world" where
  "make_prng_no_tls E aligned_alloc secure w =
     (if secure then
        (let (res, P, g) =
               prng_pool_acquire (secure_prng_ctor E) aligned_alloc (secure_pool w) (globals w)
         in (map_sum id Secure_no_tls res, w\<lparr>globals := g, secure_pool := P\<rparr>))
      else
        (let (res, P, g) =
               prng_pool_acquire (fast_prng_ctor E) aligned_alloc (fast_pool w) (globals w)
         in (map_sum id Fast_no_tls res, w\<lparr>globals := g, fast_pool := P\<rparr>)))"

text \<open>
  \<^verbatim>\<open>make_prng_tls(secure)\<close> run by thread \<open>t\<close>: the thread's object is constructed
  when the thread first passes its declaration, and a handle over it is returned.
\<close>

definition make_prng_tls :: "'c env \<Rightarrow> thread \<Rightarrow> bool \<Rightarrow> 'c world \<Rightarrow> prng_ptr \<times> 'c world" where
  "make_prng_tls E t secure w =
     (if secure then
        (let w1 = (case tls_sp w t of
                     None \<Rightarrow>
                       (let (c, g) = tls_secure_prng_ctor E (globals w)
                        in w\<lparr>globals := g, tls_sp := (tls_sp w)(t \<mapsto> c)\<rparr>)
                   | Some c \<Rightarrow> w)
         in ref_ctor acquire (Secure_tls t) w1)
      else
        (let w1 = (case tls_fp w t of
                     None \<Rightarrow>
                       (let (x, g) = tls_fast_prng_ctor E (globals w)
                        in w\<lparr>globals := g, tls_fp := (tls_fp w)(t \<mapsto> x)\<rparr>)
                   | Some x \<Rightarrow> w)
         in ref_ctor acquire (Fast_tls t) w1))"

text \<open>
  \<^verbatim>\<open>make_prng(secure)\<close>: the build flag \<^verbatim>\<open>BOOST_BEAST_NO_THREAD_LOCAL\<close> chooses
  the factory.
\<close>

definition make_prng ::
  "bool \<Rightarrow> 'c env \<Rightarrow> addr option \<Rightarrow> thread \<Rightarrow> bool \<Rightarrow> 'c world \<Rightarrow> (error + prng_ptr) \<times> 'c world" where
  "make_prng no_thread_local E aligned_alloc t secure w =
     (if no_thread_local then make_prng_no_tls E aligned_alloc secure w
      else (let (h, w1) = make_prng_tls E t secure w in (Inr h, w1)))"

section \<open>Constructions and the nonces they draw\<close>

text \<open>
  The four classes, the effect of constructing an object of a class on the statics,
  and the counter a class increments. The value \<^verbatim>\<open>++nonce\<close> returns in a
  constructor is the counter of the class right after the construction.
\<close>

datatype prng_class = No_tls_fast_prng | No_tls_secure_prng | Tls_fast_prng | Tls_secure_prng

fun construct :: "'c env \<Rightarrow> prng_class \<Rightarrow> statics \<Rightarrow> statics" where
  "construct E No_tls_fast_prng g = snd (fast_prng_ctor E g)"
| "construct E No_tls_secure_prng g = snd (secure_prng_ctor E g)"
| "construct E Tls_fast_prng g = snd (tls_fast_prng_ctor E g)"
| "construct E Tls_secure_prng g = snd (tls_secure_prng_ctor E g)"

fun nonce_of :: "prng_class \<Rightarrow> statics \<Rightarrow> u64" where
  "nonce_of No_tls_fast_prng g = nonce_fast g"
| "nonce_of No_tls_secure_prng g = nonce_secure g"
| "nonce_of Tls_fast_prng g = nonce_tls_fast g"
| "nonce_of Tls_secure_prng g = nonce_tls_secure g"

definition nonce_drawn :: "'c env \<Rightarrow> prng_class \<Rightarrow> statics \<Rightarrow> u64" where
  "nonce_drawn E c g = nonce_of c (construct E c g)"

text \<open>The nonces drawn by a sequence of constructions in one process, in order.\<close>

fun nonces_drawn :: "'c env \<Rightarrow> prng_class list \<Rightarrow> statics \<Rightarrow> u64 list" where
  "nonces_drawn E [] g = []"
| "nonces_drawn E (c # cs) g = nonce_drawn E c g # nonces_drawn E cs (construct E c g)"

section \<open>A concrete environment\<close>

text \<open>
  An instance of the parameters, for evaluating the model on concrete inputs: the
  generated words are the first eight of the sequence (0 where it is shorter), the
  entropy source yields 7, 8, 9, ..., and the cipher state is the list of its key
  words and counter, rotated by each call.
\<close>

definition env_example :: "(u32 list) env" where
  "env_example =
     \<lparr>generate = (\<lambda>ss. case take 8 (ss @ replicate 8 0) of
                          [a, b, c, d, e, f, g, h] \<Rightarrow> Data a b c d e f g h
                        | _ \<Rightarrow> Data 0 0 0 0 0 0 0 0),
      random_device = (\<lambda>i. word_of_nat (i + 7)),
      chacha_ctor = (\<lambda>pv n. [v0 pv, v1 pv, ucast n]),
      chacha_call = (\<lambda>c. case c of [] \<Rightarrow> (0, []) | x # xs \<Rightarrow> (x, xs @ [x + 1]))\<rparr>"

section \<open>Notions used in the statements\<close>

text \<open>The sum of the eight seed words, as a number.\<close>

definition seed_sum :: "data \<Rightarrow> nat" where
  "seed_sum pv =
     unat (v0 pv) + unat (v1 pv) + unat (v2 pv) + unat (v3 pv) +
     unat (v4 pv) + unat (v5 pv) + unat (v6 pv) + unat (v7 pv)"

text \<open>The states of the engine of modulus \<open>m\<close>: 1 to \<open>m - 1\<close>.\<close>

definition minstd_state :: "minstd_rand \<Rightarrow> bool" where
  "minstd_state x = (0 < x \<and> x < minstd_m)"

text \<open>
  Two states of the pool of \<open>fast_prng\<close> with one object, at address 0: held by \<open>n\<close>
  handles, and idle on the free list.
\<close>

definition pool_held :: "int \<Rightarrow> minstd_rand prng_pool" where
  "pool_held n =
     \<lparr>head = None, objs = (\<lambda>_. None)(0 \<mapsto> \<lparr>refs = n, rng = 85, nxt = None\<rparr>)\<rparr>"

definition pool_idle :: "minstd_rand prng_pool" where
  "pool_idle =
     \<lparr>head = Some 0, objs = (\<lambda>_. None)(0 \<mapsto> \<lparr>refs = 0, rng = 85, nxt = None\<rparr>)\<rparr>"

text \<open>
  Statics that agree with the initial ones on the seed material an instance gets and
  on the counters of the pooled classes, and differ elsewhere.
\<close>

definition statics_other :: statics where
  "statics_other =
     \<lparr>seed_d = Some (Data 7 8 9 10 11 12 13 14), nonce_fast = 0, nonce_secure = 0,
      nonce_tls_fast = 5, nonce_tls_secure = 6\<rparr>"

text \<open>
  The states a pool can be in: the initial state, and what the operations make of a
  reachable state. \<^verbatim>\<open>prng_pool::acquire\<close> is public. The members \<open>acquire\<close>,
  \<open>release\<close> and \<^verbatim>\<open>operator()\<close> of an object are called through handles only;
  a handle on an object exists from the \<open>acquire\<close> at its creation to the \<open>release\<close>
  at its end, so these run on an object whose count is positive.
\<close>

inductive reachable :: "'r prng_pool \<Rightarrow> bool" where
  init: "reachable prng_pool_init"
| make: "reachable P \<Longrightarrow> reachable (fst (snd (prng_pool_acquire T a P g)))"
| copy: "reachable P \<Longrightarrow> objs P p = Some t \<Longrightarrow> 0 < refs t \<Longrightarrow>
           reachable (snd (ref_ctor pooled_acquire p P))"
| drop: "reachable P \<Longrightarrow> objs P p = Some t \<Longrightarrow> 0 < refs t \<Longrightarrow>
           reachable (ref_dtor pooled_release p P)"
| draw: "reachable P \<Longrightarrow> objs P p = Some t \<Longrightarrow> 0 < refs t \<Longrightarrow>
           reachable (snd (ref_call (pooled_call f) p P))"

section \<open>Seed stability\<close>

lemma prng_seed_initialised:
  "seed_d g = Some x \<Longrightarrow> prng_seed E ss g = (x, g)"
  by (simp add: prng_seed_def)

lemma prng_seed_sets:
  "seed_d (snd (prng_seed E ss g)) = Some (fst (prng_seed E ss g))"
  by (simp add: prng_seed_def Let_def split: option.splits)

lemma prng_seed_calls_initialised:
  "seed_d g = Some x \<Longrightarrow> prng_seed_calls E as g = (replicate (length as) x, g)"
  by (induction as) (simp_all add: prng_seed_initialised)

text \<open>
  Claim C2. In any sequence of calls of \<open>prng_seed\<close>, whatever the statics before
  it, every call after the first returns the value the first call returned, whatever
  seed sequence (or none) it is given, and leaves the statics as the first call left
  them. The result of a call is always a value: the function has no error result.
\<close>

theorem prng_seed_stable:
  "prng_seed_calls E (a # as) g =
     (replicate (Suc (length as)) (fst (prng_seed E a g)), snd (prng_seed E a g))"
  using prng_seed_calls_initialised
    [where E = E and as = as, OF prng_seed_sets [where E = E and ss = a and g = g]]
  by (simp add: case_prod_beta)

section \<open>The seed of the Fast variant\<close>

lemma trunc_sum_mod:
  "((s mod 2 ^ 32 + n) mod 2 ^ 64) mod 2 ^ 32 = (s + n) mod (2 ^ 32 :: nat)"
proof -
  have d: "(2 ^ 32 :: nat) dvd 2 ^ 64"
    by (rule le_imp_power_dvd) simp
  have "((s mod 2 ^ 32 + n) mod 2 ^ 64) mod 2 ^ 32 = (s mod 2 ^ 32 + n) mod (2 ^ 32 :: nat)"
    by (rule mod_mod_cancel [OF d])
  also have "\<dots> = (s + n) mod 2 ^ 32"
    by (rule mod_add_left_eq)
  finally show ?thesis .
qed

lemma unat_ucast_u32_u64: "unat (ucast (s :: u32) :: u64) = unat s"
proof -
  have "unat s < 2 ^ 32"
    using unsigned_less [of s] by simp
  then have "unat s < 2 ^ 64"
    by simp
  then show ?thesis
    by (simp add: unsigned_ucast_eq take_bit_nat_eq_self)
qed

lemma unat_ucast_u64_u32: "unat (ucast (w :: u64) :: u32) = unat w mod 2 ^ 32"
  by (simp add: unsigned_ucast_eq take_bit_eq_mod)

lemma unat_add_u64: "unat (a + b :: u64) = (unat a + unat b) mod 2 ^ 64"
  by (simp add: unat_word_ariths)

lemma unat_add_u32: "unat (a + b :: u32) = (unat a + unat b) mod 2 ^ 32"
  by (simp add: unat_word_ariths)

lemma unat_sum8:
  "unat (a + b + c + d + e + f + g + h :: u32) =
     (unat a + unat b + unat c + unat d + unat e + unat f + unat g + unat h) mod 2 ^ 32"
  by (simp only: unat_add_u32 mod_add_left_eq)

lemma fast_seed_value_sum:
  "unat (fast_seed_value pv n) = (seed_sum pv + unat n) mod 2 ^ 32"
  by (simp only: fast_seed_value_def seed_sum_def unat_ucast_u64_u32 unat_add_u64
        unat_ucast_u32_u64 unat_sum8 trunc_sum_mod)

lemma prng_seed_nonces:
  "nonce_fast (snd (prng_seed E ss g)) = nonce_fast g"
  "nonce_secure (snd (prng_seed E ss g)) = nonce_secure g"
  "nonce_tls_fast (snd (prng_seed E ss g)) = nonce_tls_fast g"
  "nonce_tls_secure (snd (prng_seed E ss g)) = nonce_tls_secure g"
  by (simp_all add: prng_seed_def Let_def split: option.splits)

lemma fast_prng_seed_eq:
  "fast_prng_seed E g =
     (fast_seed_value (fst (prng_seed E None g)) (nonce_fast g + 1),
      (snd (prng_seed E None g))\<lparr>nonce_fast := nonce_fast g + 1\<rparr>)"
  by (simp add: fast_prng_seed_def case_prod_beta Let_def prng_seed_nonces)

lemma tls_fast_prng_seed_eq:
  "tls_fast_prng_seed E g =
     (fast_seed_value (fst (prng_seed E None g)) (nonce_tls_fast g + 1),
      (snd (prng_seed E None g))\<lparr>nonce_tls_fast := nonce_tls_fast g + 1\<rparr>)"
  by (simp add: tls_fast_prng_seed_def case_prod_beta Let_def prng_seed_nonces)

text \<open>
  Claim C7. In both factories, the constructor of \<open>fast_prng\<close> increments the counter
  of its class and seeds the engine \<open>r_\<close> with the sum of the eight words of the seed
  material and the incremented counter, modulo \<open>2 ^ 32\<close>.
\<close>

theorem fast_prng_seed_truncated_sum:
  "unat (fst (fast_prng_seed E g)) =
     (seed_sum (fst (prng_seed E None g)) + unat (nonce_fast g + 1)) mod 2 ^ 32 \<and>
   nonce_fast (snd (fast_prng_seed E g)) = nonce_fast g + 1 \<and>
   rng (fst (fast_prng_ctor E g)) = minstd_rand_ctor (fst (fast_prng_seed E g)) \<and>
   unat (fst (tls_fast_prng_seed E g)) =
     (seed_sum (fst (prng_seed E None g)) + unat (nonce_tls_fast g + 1)) mod 2 ^ 32 \<and>
   nonce_tls_fast (snd (tls_fast_prng_seed E g)) = nonce_tls_fast g + 1 \<and>
   fst (tls_fast_prng_ctor E g) = minstd_rand_ctor (fst (tls_fast_prng_seed E g))"
  by (simp add: fast_prng_seed_eq tls_fast_prng_seed_eq fast_seed_value_sum
        fast_prng_ctor_def tls_fast_prng_ctor_def case_prod_beta)

section \<open>The range of the Fast variant\<close>

lemma minstd_inverse: "(1899818559 * minstd_a) mod minstd_m = 1"
  by (simp add: minstd_a_def minstd_m_def)

lemma minstd_step_nonzero:
  assumes "0 < x" "x < minstd_m"
  shows "(minstd_a * x) mod minstd_m \<noteq> 0"
proof
  assume z: "(minstd_a * x) mod minstd_m = 0"
  have "x mod minstd_m = ((1899818559 * minstd_a) mod minstd_m * x) mod minstd_m"
    by (simp only: minstd_inverse mult_1)
  also have "\<dots> = (1899818559 * minstd_a * x) mod minstd_m"
    by (rule mod_mult_left_eq)
  also have "\<dots> = (1899818559 * (minstd_a * x)) mod minstd_m"
    by (simp only: mult.assoc)
  also have "\<dots> = (1899818559 * ((minstd_a * x) mod minstd_m)) mod minstd_m"
    by (rule mod_mult_right_eq [symmetric])
  also have "\<dots> = 0"
    by (simp only: z mult_0_right mod_0)
  finally show False using assms by simp
qed

lemma minstd_m_pos: "0 < minstd_m"
  by (simp add: minstd_m_def)

lemma minstd_rand_ctor_state: "minstd_state (minstd_rand_ctor s)"
proof -
  have "unat s mod minstd_m < minstd_m"
    by (rule mod_less_divisor) (rule minstd_m_pos)
  moreover have "1 < minstd_m"
    by (simp add: minstd_m_def)
  ultimately show ?thesis
    by (simp add: minstd_rand_ctor_def minstd_state_def)
qed

lemma minstd_rand_call_state:
  assumes "minstd_state x"
  shows "minstd_state (snd (minstd_rand_call x))"
    and "fst (minstd_rand_call x) = snd (minstd_rand_call x)"
proof -
  have "(minstd_a * x) mod minstd_m < minstd_m"
    by (rule mod_less_divisor) (rule minstd_m_pos)
  moreover have "(minstd_a * x) mod minstd_m \<noteq> 0"
    using assms by (intro minstd_step_nonzero) (simp_all add: minstd_state_def)
  ultimately show "minstd_state (snd (minstd_rand_call x))"
    by (simp add: minstd_rand_call_def minstd_state_def Let_def)
  show "fst (minstd_rand_call x) = snd (minstd_rand_call x)"
    by (simp add: minstd_rand_call_def Let_def)
qed

lemma unat_minstd_state:
  assumes "minstd_state x"
  shows "unat (word_of_nat x :: u32) = x"
proof -
  have "x < 2 ^ 32"
    using assms by (simp add: minstd_state_def minstd_m_def)
  then show ?thesis
    by (simp add: unat_of_nat take_bit_nat_eq_self)
qed

lemma fast_prng_call_range:
  assumes "minstd_state x"
  shows "minstd_state (snd (fast_prng_call x))"
    and "1 \<le> unat (fst (fast_prng_call x))"
    and "unat (fst (fast_prng_call x)) \<le> 2 ^ 31 - 2"
proof -
  have s: "minstd_state (snd (minstd_rand_call x))"
    by (rule minstd_rand_call_state [OF assms])
  show "minstd_state (snd (fast_prng_call x))"
    using s by (simp add: fast_prng_call_def case_prod_beta)
  have e: "unat (fst (fast_prng_call x)) = snd (minstd_rand_call x)"
    using unat_minstd_state [OF s] minstd_rand_call_state(2) [OF assms]
    by (simp add: fast_prng_call_def case_prod_beta)
  show "1 \<le> unat (fst (fast_prng_call x))"
    using s unfolding e by (simp add: minstd_state_def)
  show "unat (fst (fast_prng_call x)) \<le> 2 ^ 31 - 2"
    using s unfolding e by (simp add: minstd_state_def minstd_m_def)
qed

lemma draw_fast_range:
  "minstd_state x \<Longrightarrow> y \<in> set (draw fast_prng_call n x) \<Longrightarrow>
     1 \<le> unat y \<and> unat y \<le> 2 ^ 31 - 2"
proof (induction n arbitrary: x)
  case 0
  then show ?case by simp
next
  case (Suc n)
  from Suc.prems(2)
  have "y = fst (fast_prng_call x) \<or> y \<in> set (draw fast_prng_call n (snd (fast_prng_call x)))"
    by (simp add: case_prod_beta)
  then show ?case
  proof
    assume "y = fst (fast_prng_call x)"
    then show ?thesis
      using fast_prng_call_range(2,3) [OF Suc.prems(1)] by simp
  next
    assume "y \<in> set (draw fast_prng_call n (snd (fast_prng_call x)))"
    then show ?thesis
      by (rule Suc.IH [OF fast_prng_call_range(1) [OF Suc.prems(1)]])
  qed
qed

lemma fast_prng_ctor_state: "minstd_state (rng (fst (fast_prng_ctor E g)))"
  by (simp add: fast_prng_ctor_def case_prod_beta minstd_rand_ctor_state)

lemma tls_fast_prng_ctor_state: "minstd_state (fst (tls_fast_prng_ctor E g))"
  by (simp add: tls_fast_prng_ctor_def case_prod_beta minstd_rand_ctor_state)

text \<open>
  Claim C10. Every word drawn from a Fast generator, of either factory, whatever
  the statics at its construction and however many words were drawn before, is at
  least 1 and at most \<open>2 ^ 31 - 2\<close>.
\<close>

theorem fast_prng_output_range:
  assumes "y \<in> set (draw fast_prng_call n (rng (fst (fast_prng_ctor E g)))) \<or>
           y \<in> set (draw fast_prng_call n (fst (tls_fast_prng_ctor E g)))"
  shows "1 \<le> unat y \<and> unat y \<le> 2 ^ 31 - 2"
  using assms draw_fast_range [OF fast_prng_ctor_state]
    draw_fast_range [OF tls_fast_prng_ctor_state]
  by blast

lemma example_fast_prng_seed:
  "fast_prng_seed env_example statics_init =
     (85, \<lparr>seed_d = Some (Data 7 8 9 10 11 12 13 14), nonce_fast = 1, nonce_secure = 0,
           nonce_tls_fast = 0, nonce_tls_secure = 0\<rparr>)"
  by (simp add: fast_prng_seed_def prng_seed_def statics_init_def data_ctor_def
        env_example_def fast_seed_value_def Let_def)

lemma example_fast_prng_ctor:
  "fast_prng_ctor env_example statics_init =
     (\<lparr>refs = 0, rng = 85, nxt = None\<rparr>,
      \<lparr>seed_d = Some (Data 7 8 9 10 11 12 13 14), nonce_fast = 1, nonce_secure = 0,
       nonce_tls_fast = 0, nonce_tls_secure = 0\<rparr>)"
  by (simp add: fast_prng_ctor_def example_fast_prng_seed minstd_rand_ctor_def minstd_m_def)

lemma example_draw: "draw fast_prng_call 2 85 = [4103035, 489106961]"
  by (simp add: numeral_2_eq_2 fast_prng_call_def minstd_rand_call_def minstd_a_def
        minstd_m_def)

theorem fast_prng_output_range_witness:
  "489106961 \<in> set (draw fast_prng_call 2 (rng (fst (fast_prng_ctor env_example statics_init)))) \<and>
   1 \<le> unat (489106961 :: u32) \<and> unat (489106961 :: u32) \<le> 2 ^ 31 - 2"
  using fast_prng_output_range [of 489106961 2 env_example statics_init]
  by (simp add: example_fast_prng_ctor example_draw)

section \<open>Nonces\<close>

lemma secure_prng_ctor_statics:
  "snd (secure_prng_ctor E g) = (snd (prng_seed E None g))\<lparr>nonce_secure := nonce_secure g + 1\<rparr>"
  by (simp add: secure_prng_ctor_def case_prod_beta Let_def prng_seed_nonces)

lemma tls_secure_prng_ctor_statics:
  "snd (tls_secure_prng_ctor E g) =
     (snd (prng_seed E None g))\<lparr>nonce_tls_secure := nonce_tls_secure g + 1\<rparr>"
  by (simp add: tls_secure_prng_ctor_def case_prod_beta Let_def prng_seed_nonces)

lemma fast_prng_ctor_statics:
  "snd (fast_prng_ctor E g) = (snd (prng_seed E None g))\<lparr>nonce_fast := nonce_fast g + 1\<rparr>"
  by (simp add: fast_prng_ctor_def case_prod_beta fast_prng_seed_eq)

lemma tls_fast_prng_ctor_statics:
  "snd (tls_fast_prng_ctor E g) =
     (snd (prng_seed E None g))\<lparr>nonce_tls_fast := nonce_tls_fast g + 1\<rparr>"
  by (simp add: tls_fast_prng_ctor_def case_prod_beta tls_fast_prng_seed_eq)

lemmas ctor_statics =
  fast_prng_ctor_statics secure_prng_ctor_statics
  tls_fast_prng_ctor_statics tls_secure_prng_ctor_statics

lemma nonce_of_construct:
  "nonce_of c (construct E c' g) = nonce_of c g + (if c = c' then 1 else 0)"
  by (cases c; cases c') (simp_all add: ctor_statics prng_seed_nonces)

lemma nonce_drawn_eq: "nonce_drawn E c g = nonce_of c g + 1"
  by (simp add: nonce_drawn_def nonce_of_construct)

lemma nonces_drawn_length: "length (nonces_drawn E cs g) = length cs"
  by (induction cs arbitrary: g) simp_all

lemma nonces_drawn_nth:
  "i < length cs \<Longrightarrow>
     nonces_drawn E cs g ! i =
       nonce_of (cs ! i) g + word_of_nat (count_list (take (Suc i) cs) (cs ! i))"
proof (induction cs arbitrary: g i)
  case Nil
  then show ?case by simp
next
  case (Cons c cs)
  show ?case
  proof (cases i)
    case 0
    then show ?thesis by (simp add: nonce_drawn_eq)
  next
    case (Suc k)
    with Cons.prems have k: "k < length cs" by simp
    show ?thesis
      using Cons.IH [OF k, of "construct E c g"] Suc
      by (simp add: nonce_of_construct)
  qed
qed

lemma count_list_take_split:
  assumes "i < j" "j < length cs"
  shows "count_list (take (Suc j) cs) c =
           count_list (take (Suc i) cs) c + count_list (drop (Suc i) (take (Suc j) cs)) c"
proof -
  have "take (Suc j) cs = take (Suc i) (take (Suc j) cs) @ drop (Suc i) (take (Suc j) cs)"
    by (rule append_take_drop_id [symmetric])
  moreover have "take (Suc i) (take (Suc j) cs) = take (Suc i) cs"
    using assms by (simp add: min_def)
  ultimately have "take (Suc j) cs = take (Suc i) cs @ drop (Suc i) (take (Suc j) cs)"
    by simp
  then have "count_list (take (Suc j) cs) c =
      count_list (take (Suc i) cs @ drop (Suc i) (take (Suc j) cs)) c"
    by simp
  then show ?thesis
    by (simp only: count_list_append)
qed

text \<open>
  Claim C1, as the code has it. Each of the four generator classes has a counter of
  its own. Among the constructions of one process, in any order and from any statics,
  two objects of the same class draw different nonces when fewer than \<open>2 ^ 64\<close>
  constructions lie between them (the counter is 64 bits wide and wraps).
\<close>

theorem nonce_unique_per_class:
  assumes "i < j" and "j < length cs" and "cs ! i = cs ! j" and "j - i < 2 ^ 64"
  shows "nonces_drawn E cs g ! i \<noteq> nonces_drawn E cs g ! j"
proof -
  define c where "c = cs ! j"
  define seg where "seg = drop (Suc i) (take (Suc j) cs)"
  define d where "d = count_list seg c"
  have len: "length seg = j - i"
    using assms(1,2) by (auto simp: seg_def min_def)
  have at: "seg ! (j - Suc i) = c"
    using assms(1,2) by (simp add: seg_def c_def)
  have "j - Suc i < length seg"
    using len assms(1) by simp
  then have "seg ! (j - Suc i) \<in> set seg"
    by (rule nth_mem)
  then have "c \<in> set seg"
    by (simp only: at)
  then have pos: "0 < d"
    using count_list_0_iff [of seg c] by (auto simp: d_def)
  have "d \<le> length seg"
    unfolding d_def by (rule count_le_length)
  then have small: "d < 2 ^ 64"
    using len assms(4) by simp
  have nz: "(word_of_nat d :: u64) \<noteq> 0"
  proof
    assume "(word_of_nat d :: u64) = 0"
    then have "2 ^ 64 dvd d"
      by (simp add: word_of_nat_eq_0_iff)
    then show False
      using pos small by (auto dest: dvd_imp_le)
  qed
  have i': "i < length cs"
    using assms(1,2) by simp
  have ni: "nonces_drawn E cs g ! i = nonce_of c g + word_of_nat (count_list (take (Suc i) cs) c)"
    using nonces_drawn_nth [OF i', of E g] assms(3) by (simp add: c_def)
  have nj: "nonces_drawn E cs g ! j =
      nonce_of c g + word_of_nat (count_list (take (Suc i) cs) c) + word_of_nat d"
    using nonces_drawn_nth [OF assms(2), of E g] count_list_take_split [OF assms(1,2), of c]
    by (simp add: c_def d_def seg_def)
  show ?thesis
    unfolding ni nj using nz by simp
qed

lemma example_nonces:
  "nonces_drawn env_example [No_tls_fast_prng, No_tls_secure_prng, No_tls_fast_prng] statics_init
     = [1, 1, 2]"
  by (simp add: nonce_drawn_eq ctor_statics prng_seed_nonces statics_init_def)

theorem nonce_unique_per_class_witness:
  "(0 :: nat) < 2 \<and>
   [No_tls_fast_prng, No_tls_secure_prng, No_tls_fast_prng] ! 0 =
     [No_tls_fast_prng, No_tls_secure_prng, No_tls_fast_prng] ! 2 \<and>
   nonces_drawn env_example [No_tls_fast_prng, No_tls_secure_prng, No_tls_fast_prng] statics_init ! 0
     \<noteq> nonces_drawn env_example [No_tls_fast_prng, No_tls_secure_prng, No_tls_fast_prng]
          statics_init ! 2"
  using nonce_unique_per_class
    [of 0 2 "[No_tls_fast_prng, No_tls_secure_prng, No_tls_fast_prng]" env_example statics_init]
  by simp

text \<open>
  Claim C1, as stated, fails: from the initial statics, the first \<open>fast_prng\<close> and
  the first \<open>secure_prng\<close> of \<^verbatim>\<open>make_prng_no_tls\<close> both draw the nonce 1.
\<close>

theorem nonce_shared_across_classes:
  "nonces_drawn env_example [No_tls_fast_prng, No_tls_secure_prng] statics_init = [1, 1] \<and>
   \<not> distinct (nonces_drawn env_example [No_tls_fast_prng, No_tls_secure_prng] statics_init)"
  by (simp add: nonce_drawn_eq ctor_statics prng_seed_nonces statics_init_def)

section \<open>The pooled strategy\<close>

lemma pooled_acquire_Some:
  "objs P p = Some t \<Longrightarrow>
     pooled_acquire p P = (p, P\<lparr>objs := (objs P)(p \<mapsto> t\<lparr>refs := refs t + 1\<rparr>)\<rparr>)"
  by (simp add: pooled_acquire_def)

lemma pooled_release_Some:
  "objs P p = Some t \<Longrightarrow>
     pooled_release p P =
       (if refs t - 1 = 0
        then P\<lparr>head := Some p, objs := (objs P)(p \<mapsto> t\<lparr>refs := 0, nxt := head P\<rparr>)\<rparr>
        else P\<lparr>objs := (objs P)(p \<mapsto> t\<lparr>refs := refs t - 1\<rparr>)\<rparr>)"
  by (simp add: pooled_release_def prng_pool_release_def Let_def)

lemma pooled_acquire_other:
  "q \<noteq> p \<Longrightarrow> objs (snd (pooled_acquire q P)) p = objs P p"
  by (simp add: pooled_acquire_def split: option.splits)

lemma pooled_release_other:
  "q \<noteq> p \<Longrightarrow> objs (pooled_release q P) p = objs P p"
  by (simp add: pooled_release_def prng_pool_release_def Let_def split: option.splits)

text \<open>
  Claim C3. For an object at \<open>p\<close> of either pooled class, in any state of its pool:
  \<open>acquire\<close> adds one to its count, returns \<open>p\<close> and changes nothing else;
  \<open>release\<close> subtracts one, and hands the object to \<^verbatim>\<open>prng_pool::release\<close>
  (which links it in front of the free list) when the new count is 0, and otherwise
  changes nothing else. The operations on another object leave this one as it is.
\<close>

theorem pooled_acquire_release:
  assumes "objs P p = Some t"
  shows "pooled_acquire p P = (p, P\<lparr>objs := (objs P)(p \<mapsto> t\<lparr>refs := refs t + 1\<rparr>)\<rparr>) \<and>
         (refs t - 1 \<noteq> 0 \<longrightarrow>
            pooled_release p P = P\<lparr>objs := (objs P)(p \<mapsto> t\<lparr>refs := refs t - 1\<rparr>)\<rparr>) \<and>
         (refs t - 1 = 0 \<longrightarrow>
            pooled_release p P =
              prng_pool_release p (P\<lparr>objs := (objs P)(p \<mapsto> t\<lparr>refs := 0\<rparr>)\<rparr>) \<and>
            pooled_release p P =
              P\<lparr>head := Some p, objs := (objs P)(p \<mapsto> t\<lparr>refs := 0, nxt := head P\<rparr>)\<rparr>) \<and>
         (\<forall>q. q \<noteq> p \<longrightarrow>
            objs (snd (pooled_acquire q P)) p = Some t \<and> objs (pooled_release q P) p = Some t)"
  using assms
  by (simp add: pooled_acquire_Some pooled_release_Some pooled_acquire_other
        pooled_release_other prng_pool_release_def)

lemma pool_inv_head:
  assumes "pool_inv P" "head P = Some p"
  shows "\<exists>t. objs P p = Some t \<and> refs t = 0"
proof -
  from assms(1) obtain ps where ps: "free_list P (head P) ps"
    by (auto simp: pool_inv_def)
  show ?thesis
  proof (cases ps)
    case Nil
    with ps assms(2) show ?thesis by simp
  next
    case (Cons q qs)
    with ps assms(2) show ?thesis
      by (auto split: option.splits)
  qed
qed

lemma acquire_hit:
  "head P = Some p \<Longrightarrow> objs P p = Some t \<Longrightarrow>
     prng_pool_acquire T a P g =
       (Inr p, P\<lparr>head := nxt t, objs := (objs P)(p \<mapsto> t\<lparr>refs := refs t + 1\<rparr>)\<rparr>, g)"
  by (simp add: prng_pool_acquire_def ref_ctor_def pooled_acquire_def next_of_def)

lemma acquire_miss:
  "head P = None \<Longrightarrow>
     prng_pool_acquire T (Some q) P g =
       (Inr q, P\<lparr>objs := (objs P)(q \<mapsto> (fst (T g))\<lparr>refs := refs (fst (T g)) + 1\<rparr>)\<rparr>, snd (T g))"
  by (simp add: prng_pool_acquire_def ref_ctor_def pooled_acquire_def case_prod_beta)

lemma acquire_fail:
  "head P = None \<Longrightarrow> prng_pool_acquire T None P g = (Inl bad_alloc, P, g)"
  by (simp add: prng_pool_acquire_def)

text \<open>
  Claim C6. With an empty free list and a failed allocation, \<open>acquire\<close> throws
  \<^verbatim>\<open>std::bad_alloc\<close> after its single allocation attempt and leaves the pool and
  the statics as they were; from that state an \<open>acquire\<close> whose allocation succeeds
  returns the new object. \<^verbatim>\<open>make_prng_no_tls\<close> passes the error on and leaves the
  process state as it was.
\<close>

theorem prng_pool_acquire_bad_alloc:
  assumes "head P = None"
  shows "prng_pool_acquire T None P g = (Inl bad_alloc, P, g) \<and>
         (\<forall>q. fst (prng_pool_acquire T (Some q) P g) = Inr q) \<and>
         (head (fast_pool w) = None \<longrightarrow> make_prng_no_tls E None False w = (Inl bad_alloc, w)) \<and>
         (head (secure_pool w) = None \<longrightarrow> make_prng_no_tls E None True w = (Inl bad_alloc, w))"
  using assms by (simp add: acquire_fail acquire_miss make_prng_no_tls_def)

lemma fast_prng_ctor_eq:
  "fast_prng_ctor E g =
     (\<lparr>refs = 0, rng = minstd_rand_ctor (fst (fast_prng_seed E g)), nxt = None\<rparr>,
      snd (fast_prng_seed E g))"
  by (simp add: fast_prng_ctor_def case_prod_beta)

lemma secure_prng_ctor_eq:
  "secure_prng_ctor E g =
     (\<lparr>refs = 0,
       rng = chacha_ctor E (fst (prng_seed E None g)) (nonce_secure g + 1),
       nxt = None\<rparr>,
      (snd (prng_seed E None g))\<lparr>nonce_secure := nonce_secure g + 1\<rparr>)"
  by (simp add: secure_prng_ctor_def case_prod_beta Let_def prng_seed_nonces)

lemma acquire_cases:
  assumes "pool_inv P" and "refs (fst (T g)) = 0"
  shows "(\<forall>p. head P = Some p \<longrightarrow>
            (\<exists>t. objs P p = Some t \<and>
               prng_pool_acquire T a P g =
                 (Inr p, P\<lparr>head := nxt t, objs := (objs P)(p \<mapsto> t\<lparr>refs := 1\<rparr>)\<rparr>, g)))"
    and "(\<forall>q. head P = None \<and> a = Some q \<longrightarrow>
            prng_pool_acquire T a P g =
              (Inr q, P\<lparr>objs := (objs P)(q \<mapsto> (fst (T g))\<lparr>refs := 1\<rparr>)\<rparr>, snd (T g)))"
proof -
  show "\<forall>p. head P = Some p \<longrightarrow>
            (\<exists>t. objs P p = Some t \<and>
               prng_pool_acquire T a P g =
                 (Inr p, P\<lparr>head := nxt t, objs := (objs P)(p \<mapsto> t\<lparr>refs := 1\<rparr>)\<rparr>, g))"
  proof (intro allI impI)
    fix p assume h: "head P = Some p"
    from pool_inv_head [OF assms(1) h] obtain t where t: "objs P p = Some t" "refs t = 0"
      by blast
    show "\<exists>t. objs P p = Some t \<and>
               prng_pool_acquire T a P g =
                 (Inr p, P\<lparr>head := nxt t, objs := (objs P)(p \<mapsto> t\<lparr>refs := 1\<rparr>)\<rparr>, g)"
      using t acquire_hit [OF h t(1), of T a g] by simp
  qed
  show "\<forall>q. head P = None \<and> a = Some q \<longrightarrow>
            prng_pool_acquire T a P g =
              (Inr q, P\<lparr>objs := (objs P)(q \<mapsto> (fst (T g))\<lparr>refs := 1\<rparr>)\<rparr>, snd (T g))"
    using assms(2) by (auto simp: acquire_miss)
qed

text \<open>
  Claim C5. For the pool of either class in a state satisfying \<open>pool_inv\<close>: with a
  non-empty free list, \<open>acquire\<close> unlinks the head object and returns it with count 1,
  and constructs nothing; with an empty free list and a successful allocation at \<open>q\<close>,
  it constructs and seeds a new object at \<open>q\<close> and returns it with count 1.
\<close>

theorem prng_pool_acquire_cases:
  fixes P :: "minstd_rand prng_pool" and S :: "'c prng_pool" and E :: "'c env"
  assumes "pool_inv P" and "pool_inv S"
  shows "(\<forall>p. head P = Some p \<longrightarrow>
            (\<exists>t. objs P p = Some t \<and>
               prng_pool_acquire (fast_prng_ctor E) a P g =
                 (Inr p, P\<lparr>head := nxt t, objs := (objs P)(p \<mapsto> t\<lparr>refs := 1\<rparr>)\<rparr>, g))) \<and>
         (\<forall>q. head P = None \<and> a = Some q \<longrightarrow>
            prng_pool_acquire (fast_prng_ctor E) a P g =
              (Inr q,
               P\<lparr>objs := (objs P)(q \<mapsto>
                    \<lparr>refs = 1, rng = minstd_rand_ctor (fst (fast_prng_seed E g)), nxt = None\<rparr>)\<rparr>,
               snd (fast_prng_seed E g))) \<and>
         (\<forall>p. head S = Some p \<longrightarrow>
            (\<exists>t. objs S p = Some t \<and>
               prng_pool_acquire (secure_prng_ctor E) a S g =
                 (Inr p, S\<lparr>head := nxt t, objs := (objs S)(p \<mapsto> t\<lparr>refs := 1\<rparr>)\<rparr>, g))) \<and>
         (\<forall>q. head S = None \<and> a = Some q \<longrightarrow>
            prng_pool_acquire (secure_prng_ctor E) a S g =
              (Inr q,
               S\<lparr>objs := (objs S)(q \<mapsto>
                    \<lparr>refs = 1,
                     rng = chacha_ctor E (fst (prng_seed E None g)) (nonce_secure g + 1),
                     nxt = None\<rparr>)\<rparr>,
               (snd (prng_seed E None g))\<lparr>nonce_secure := nonce_secure g + 1\<rparr>))"
proof -
  have f: "refs (fst (fast_prng_ctor E g)) = 0"
    by (simp add: fast_prng_ctor_eq)
  have s: "refs (fst (secure_prng_ctor E g)) = 0"
    by (simp add: secure_prng_ctor_eq)
  show ?thesis
    using acquire_cases [where T = "fast_prng_ctor E" and g = g and a = a, OF assms(1) f]
      acquire_cases [where T = "secure_prng_ctor E" and g = g and a = a, OF assms(2) s]
    by (simp add: fast_prng_ctor_eq secure_prng_ctor_eq)
qed

lemma draw_add: "draw f (k + m) x = draw f k x @ draw f m (advance f k x)"
  by (induction k arbitrary: x) (simp_all add: case_prod_beta)

lemma pooled_call_Some:
  assumes "objs P p = Some t"
  shows "fst (pooled_call f p P) = fst (f (rng t))"
    and "head (snd (pooled_call f p P)) = head P"
    and "objs (snd (pooled_call f p P)) = (objs P)(p \<mapsto> t\<lparr>rng := snd (f (rng t))\<rparr>)"
  using assms by (simp_all add: pooled_call_def case_prod_beta)

lemma pooled_draw_Some:
  "objs P p = Some t \<Longrightarrow>
     fst (pooled_draw f n p P) = draw f n (rng t) \<and>
     head (snd (pooled_draw f n p P)) = head P \<and>
     objs (snd (pooled_draw f n p P)) = (objs P)(p \<mapsto> t\<lparr>rng := advance f n (rng t)\<rparr>)"
proof (induction n arbitrary: P t)
  case 0
  then have "(objs P)(p \<mapsto> t) = objs P"
    by (simp add: fun_upd_idem)
  then show ?case by simp
next
  case (Suc n)
  define P1 where "P1 = snd (pooled_call f p P)"
  have o: "objs P1 p = Some (t\<lparr>rng := snd (f (rng t))\<rparr>)"
    by (simp add: P1_def pooled_call_Some(3) [OF Suc.prems])
  have s: "pooled_draw f (Suc n) p P =
      (fst (pooled_call f p P) # fst (pooled_draw f n p P1), snd (pooled_draw f n p P1))"
    by (simp add: ref_call_def case_prod_beta P1_def)
  show ?case
    using Suc.IH [OF o] pooled_call_Some [OF Suc.prems, of f]
    by (simp add: s P1_def case_prod_beta ref_call_def cong: if_cong)
qed

lemma pool_reuse:
  assumes inv: "pool_inv P" and T0: "refs (fst (T g)) = 0"
    and acq: "prng_pool_acquire T a P g = (Inr p, P1, g1)"
  shows "\<exists>t P4.
           objs P1 p = Some t \<and> refs t = 1 \<and>
           prng_pool_acquire T a'
             (ref_dtor pooled_release p (snd (pooled_draw f k p P1))) g1 = (Inr p, P4, g1) \<and>
           objs P4 p = Some (t\<lparr>rng := advance f k (rng t), nxt := head P1\<rparr>) \<and>
           fst (pooled_draw f m p P4) = draw f m (advance f k (rng t)) \<and>
           fst (pooled_draw f (k + m) p P1) =
             fst (pooled_draw f k p P1) @ fst (pooled_draw f m p P4)"
proof -
  have "\<exists>t. objs P1 p = Some t \<and> refs t = 1"
  proof (cases "head P")
    case None
    with acq obtain q where "a = Some q"
      by (cases a) (auto simp: acquire_fail)
    with None acq T0 show ?thesis
      by (auto simp: acquire_miss)
  next
    case (Some q)
    from pool_inv_head [OF inv Some] obtain t where t: "objs P q = Some t" "refs t = 0"
      by blast
    with Some acq show ?thesis
      by (auto simp: acquire_hit)
  qed
  then obtain t where t: "objs P1 p = Some t" "refs t = 1"
    by blast
  define P2 where "P2 = snd (pooled_draw f k p P1)"
  have P2: "head P2 = head P1" "objs P2 p = Some (t\<lparr>rng := advance f k (rng t)\<rparr>)"
    using pooled_draw_Some [OF t(1), of f k] by (simp_all add: P2_def)
  define P3 where "P3 = ref_dtor pooled_release p P2"
  have P3: "head P3 = Some p"
    "objs P3 p = Some (t\<lparr>rng := advance f k (rng t), refs := 0, nxt := head P1\<rparr>)"
    using P2(1) t(2) by (simp_all add: P3_def ref_dtor_def pooled_release_Some [OF P2(2)])
  define P4 where "P4 = fst (snd (prng_pool_acquire T a' P3 g1))"
  have a4: "prng_pool_acquire T a' P3 g1 = (Inr p, P4, g1)"
    by (simp add: P4_def acquire_hit [OF P3])
  have o4: "objs P4 p = Some (t\<lparr>rng := advance f k (rng t), nxt := head P1\<rparr>)"
    using t(2) by (simp add: P4_def acquire_hit [OF P3])
  have d4: "fst (pooled_draw f m p P4) = draw f m (advance f k (rng t))"
    using pooled_draw_Some [OF o4, of f m] by simp
  have dk: "fst (pooled_draw f (k + m) p P1) = draw f (k + m) (rng t)"
    and dk': "fst (pooled_draw f k p P1) = draw f k (rng t)"
    using pooled_draw_Some [OF t(1), of f] by simp_all
  have "objs P1 p = Some t \<and> refs t = 1 \<and>
        prng_pool_acquire T a' P3 g1 = (Inr p, P4, g1) \<and>
        objs P4 p = Some (t\<lparr>rng := advance f k (rng t), nxt := head P1\<rparr>) \<and>
        fst (pooled_draw f m p P4) = draw f m (advance f k (rng t)) \<and>
        fst (pooled_draw f (k + m) p P1) =
          fst (pooled_draw f k p P1) @ fst (pooled_draw f m p P4)"
    using t a4 o4 d4 by (simp only: dk dk' draw_add)
  then show ?thesis
    unfolding P3_def P2_def by blast
qed

subsection \<open>The invariant holds initially and is kept\<close>

text \<open>
  Handles are the only callers of \<open>acquire\<close> and \<open>release\<close> on an object, so these
  run on objects with a positive count.
\<close>

lemma free_list_frame:
  "(\<And>q. q \<in> set ps \<Longrightarrow>
       map_option (\<lambda>t. (refs t, nxt t)) (objs P' q) = map_option (\<lambda>t. (refs t, nxt t)) (objs P q))
   \<Longrightarrow> free_list P' h ps = free_list P h ps"
proof (induction ps arbitrary: h)
  case Nil
  show ?case by simp
next
  case (Cons p ps)
  have e: "map_option (\<lambda>t. (refs t, nxt t)) (objs P' p) =
           map_option (\<lambda>t. (refs t, nxt t)) (objs P p)"
    by (rule Cons.prems) simp
  have ih: "\<And>h. free_list P' h ps = free_list P h ps"
    by (rule Cons.IH) (simp add: Cons.prems)
  show ?case
    using e by (cases "objs P p"; cases "objs P' p") (auto simp: ih)
qed

lemma free_list_refs:
  "free_list P h ps \<Longrightarrow> q \<in> set ps \<Longrightarrow> \<exists>t. objs P q = Some t \<and> refs t = 0"
  by (induction ps arbitrary: h) (auto split: option.splits)

lemma pool_inv_init: "pool_inv prng_pool_init"
  unfolding pool_inv_def by (rule exI [of _ "[]"]) (simp add: prng_pool_init_def)

lemma pool_inv_acquire:
  assumes "pool_inv P"
  shows "pool_inv (fst (snd (prng_pool_acquire T a P g)))"
proof (cases "head P")
  case None
  have e: "free_list Q None []" for Q :: "'a prng_pool"
    by simp
  show ?thesis
  proof (cases a)
    case N: None
    with None assms show ?thesis by (simp add: acquire_fail)
  next
    case (Some q)
    with None show ?thesis
      unfolding pool_inv_def by (intro exI [of _ "[]"]) (simp add: acquire_miss)
  qed
next
  case (Some p)
  from assms obtain ps where ps: "distinct ps" "free_list P (head P) ps"
    by (auto simp: pool_inv_def)
  with Some obtain qs t where qs: "ps = p # qs" "objs P p = Some t" "free_list P (nxt t) qs"
    by (cases ps) (auto split: option.splits)
  let ?P' = "P\<lparr>head := nxt t, objs := (objs P)(p \<mapsto> t\<lparr>refs := refs t + 1\<rparr>)\<rparr>"
  have "p \<notin> set qs"
    using ps(1) qs(1) by simp
  then have "free_list ?P' (nxt t) qs = free_list P (nxt t) qs"
    by (intro free_list_frame) auto
  then have "distinct qs \<and> free_list ?P' (head ?P') qs"
    using qs(3) ps(1) qs(1) by simp
  then have "pool_inv ?P'"
    unfolding pool_inv_def by blast
  then show ?thesis
    by (simp add: acquire_hit [OF Some qs(2)])
qed

lemma pool_inv_pooled_acquire:
  assumes "pool_inv P" "objs P p = Some t" "0 < refs t"
  shows "pool_inv (snd (pooled_acquire p P))"
proof -
  from assms(1) obtain ps where ps: "distinct ps" "free_list P (head P) ps"
    by (auto simp: pool_inv_def)
  let ?P' = "P\<lparr>objs := (objs P)(p \<mapsto> t\<lparr>refs := refs t + 1\<rparr>)\<rparr>"
  have "p \<notin> set ps"
    using free_list_refs [OF ps(2), of p] assms(2,3) by auto
  then have "free_list ?P' (head P) ps = free_list P (head P) ps"
    by (intro free_list_frame) auto
  then have "distinct ps \<and> free_list ?P' (head ?P') ps"
    using ps by simp
  then have "pool_inv ?P'"
    unfolding pool_inv_def by blast
  then show ?thesis
    by (simp add: pooled_acquire_Some [OF assms(2)])
qed

lemma pool_inv_pooled_release:
  assumes "pool_inv P" "objs P p = Some t" "0 < refs t"
  shows "pool_inv (pooled_release p P)"
proof -
  from assms(1) obtain ps where ps: "distinct ps" "free_list P (head P) ps"
    by (auto simp: pool_inv_def)
  have n: "p \<notin> set ps"
    using free_list_refs [OF ps(2), of p] assms(2,3) by auto
  show ?thesis
  proof (cases "refs t - 1 = 0")
    case True
    let ?P' = "P\<lparr>head := Some p, objs := (objs P)(p \<mapsto> t\<lparr>refs := 0, nxt := head P\<rparr>)\<rparr>"
    have "free_list ?P' (head P) ps = free_list P (head P) ps"
      using n by (intro free_list_frame) auto
    then have "distinct (p # ps) \<and> free_list ?P' (head ?P') (p # ps)"
      using ps n by simp
    then have "pool_inv ?P'"
      unfolding pool_inv_def by blast
    then show ?thesis
      using True by (simp add: pooled_release_Some [OF assms(2)])
  next
    case False
    let ?P' = "P\<lparr>objs := (objs P)(p \<mapsto> t\<lparr>refs := refs t - 1\<rparr>)\<rparr>"
    have "free_list ?P' (head P) ps = free_list P (head P) ps"
      using n by (intro free_list_frame) auto
    then have "distinct ps \<and> free_list ?P' (head ?P') ps"
      using ps by simp
    then have "pool_inv ?P'"
      unfolding pool_inv_def by blast
    then show ?thesis
      using False by (simp add: pooled_release_Some [OF assms(2)])
  qed
qed

lemma pool_inv_pooled_call:
  assumes "pool_inv P"
  shows "pool_inv (snd (pooled_call f p P))"
proof (cases "objs P p")
  case None
  with assms show ?thesis by (simp add: pooled_call_def)
next
  case (Some t)
  from assms obtain ps where ps: "distinct ps" "free_list P (head P) ps"
    by (auto simp: pool_inv_def)
  let ?P' = "snd (pooled_call f p P)"
  have "free_list ?P' (head P) ps = free_list P (head P) ps"
    by (intro free_list_frame) (simp add: pooled_call_Some(3) [OF Some] Some)
  then have "distinct ps \<and> free_list ?P' (head ?P') ps"
    using ps by (simp add: pooled_call_Some(2) [OF Some])
  then show ?thesis
    unfolding pool_inv_def by blast
qed

lemma reachable_pool_inv: "reachable P \<Longrightarrow> pool_inv P"
proof (induction rule: reachable.induct)
  case init
  show ?case by (rule pool_inv_init)
next
  case (make P T a g)
  then show ?case by (simp add: pool_inv_acquire)
next
  case (copy P p t)
  then show ?case by (simp add: ref_ctor_def pool_inv_pooled_acquire)
next
  case (drop P p t)
  then show ?case by (simp add: ref_dtor_def pool_inv_pooled_release)
next
  case (draw P p t f)
  then show ?case by (simp add: ref_call_def pool_inv_pooled_call)
qed

lemma reachable_idle: "reachable pool_idle"
proof -
  have a: "reachable (pool_held 1)"
    using reachable.make [OF reachable.init, of "fast_prng_ctor env_example" "Some 0" statics_init]
    by (simp add: acquire_miss prng_pool_init_def pool_held_def example_fast_prng_ctor)
  have o: "objs (pool_held 1) 0 = Some \<lparr>refs = 1, rng = 85, nxt = None\<rparr>"
    by (simp add: pool_held_def)
  have e: "ref_dtor pooled_release 0 (pool_held 1) = pool_idle"
    by (simp add: ref_dtor_def pooled_release_def prng_pool_release_def pool_held_def
          pool_idle_def)
  have "reachable (ref_dtor pooled_release 0 (pool_held 1))"
    by (rule reachable.drop [OF a o]) simp
  then show ?thesis
    by (simp only: e)
qed

text \<open>
  Claim C4. For the pool of either class in a state satisfying \<open>pool_inv\<close>: after an
  \<open>acquire\<close> that returned \<open>p\<close>, \<open>k\<close> words drawn and the handle released, the next
  \<open>acquire\<close> returns \<open>p\<close> again, whatever the allocator would do, constructs nothing
  (the statics are unchanged), and finds the engine in the state the \<open>k\<close> draws left
  it in: the \<open>m\<close> words drawn next are those that follow the first \<open>k\<close> in the
  uninterrupted stream.
\<close>

theorem pool_reuse_continues:
  fixes P :: "minstd_rand prng_pool" and S :: "'c prng_pool" and E :: "'c env"
  assumes "pool_inv P" and "pool_inv S"
  shows "(\<forall>p P1 g1.
            prng_pool_acquire (fast_prng_ctor E) a P g = (Inr p, P1, g1) \<longrightarrow>
            (\<exists>t P4.
               objs P1 p = Some t \<and> refs t = 1 \<and>
               prng_pool_acquire (fast_prng_ctor E) a'
                 (ref_dtor pooled_release p (snd (pooled_draw fast_prng_call k p P1))) g1 =
                 (Inr p, P4, g1) \<and>
               objs P4 p = Some (t\<lparr>rng := advance fast_prng_call k (rng t), nxt := head P1\<rparr>) \<and>
               fst (pooled_draw fast_prng_call (k + m) p P1) =
                 fst (pooled_draw fast_prng_call k p P1) @
                 fst (pooled_draw fast_prng_call m p P4))) \<and>
         (\<forall>p S1 g1.
            prng_pool_acquire (secure_prng_ctor E) a S g = (Inr p, S1, g1) \<longrightarrow>
            (\<exists>t S4.
               objs S1 p = Some t \<and> refs t = 1 \<and>
               prng_pool_acquire (secure_prng_ctor E) a'
                 (ref_dtor pooled_release p (snd (pooled_draw (secure_prng_call E) k p S1))) g1 =
                 (Inr p, S4, g1) \<and>
               objs S4 p =
                 Some (t\<lparr>rng := advance (secure_prng_call E) k (rng t), nxt := head S1\<rparr>) \<and>
               fst (pooled_draw (secure_prng_call E) (k + m) p S1) =
                 fst (pooled_draw (secure_prng_call E) k p S1) @
                 fst (pooled_draw (secure_prng_call E) m p S4)))"
proof -
  have f: "refs (fst (fast_prng_ctor E g)) = 0"
    by (simp add: fast_prng_ctor_eq)
  have s: "refs (fst (secure_prng_ctor E g)) = 0"
    by (simp add: secure_prng_ctor_eq)
  show ?thesis
  proof (intro conjI allI impI)
    fix p P1 g1
    assume "prng_pool_acquire (fast_prng_ctor E) a P g = (Inr p, P1, g1)"
    from pool_reuse [OF assms(1) f this, of a' fast_prng_call k m]
    show "\<exists>t P4.
               objs P1 p = Some t \<and> refs t = 1 \<and>
               prng_pool_acquire (fast_prng_ctor E) a'
                 (ref_dtor pooled_release p (snd (pooled_draw fast_prng_call k p P1))) g1 =
                 (Inr p, P4, g1) \<and>
               objs P4 p = Some (t\<lparr>rng := advance fast_prng_call k (rng t), nxt := head P1\<rparr>) \<and>
               fst (pooled_draw fast_prng_call (k + m) p P1) =
                 fst (pooled_draw fast_prng_call k p P1) @
                 fst (pooled_draw fast_prng_call m p P4)"
      by blast
  next
    fix p S1 g1
    assume "prng_pool_acquire (secure_prng_ctor E) a S g = (Inr p, S1, g1)"
    from pool_reuse [OF assms(2) s this, of a' "secure_prng_call E" k m]
    show "\<exists>t S4.
               objs S1 p = Some t \<and> refs t = 1 \<and>
               prng_pool_acquire (secure_prng_ctor E) a'
                 (ref_dtor pooled_release p (snd (pooled_draw (secure_prng_call E) k p S1))) g1 =
                 (Inr p, S4, g1) \<and>
               objs S4 p =
                 Some (t\<lparr>rng := advance (secure_prng_call E) k (rng t), nxt := head S1\<rparr>) \<and>
               fst (pooled_draw (secure_prng_call E) (k + m) p S1) =
                 fst (pooled_draw (secure_prng_call E) k p S1) @
                 fst (pooled_draw (secure_prng_call E) m p S4)"
      by blast
  qed
qed

subsection \<open>The pooled strategy on concrete states\<close>

theorem pooled_acquire_release_witness:
  "objs (pool_held 1) 0 = Some \<lparr>refs = 1, rng = 85, nxt = None\<rparr> \<and>
   pooled_acquire 0 (pool_held 1) = (0, pool_held 2) \<and>
   pooled_release 0 (pool_held 1) = pool_idle \<and>
   pooled_release 0 (pool_held 2) = pool_held 1"
  using pooled_acquire_release [of "pool_held 1" 0 "\<lparr>refs = 1, rng = 85, nxt = None\<rparr>"]
    pooled_acquire_release [of "pool_held 2" 0 "\<lparr>refs = 2, rng = 85, nxt = None\<rparr>"]
  by (simp add: pool_held_def pool_idle_def prng_pool_release_def)

theorem prng_pool_acquire_bad_alloc_witness:
  "head (prng_pool_init :: minstd_rand prng_pool) = None \<and>
   prng_pool_acquire (fast_prng_ctor env_example) None prng_pool_init statics_init =
     (Inl bad_alloc, prng_pool_init, statics_init) \<and>
   fst (prng_pool_acquire (fast_prng_ctor env_example) (Some 0) prng_pool_init statics_init) =
     Inr 0 \<and>
   make_prng_no_tls env_example None False world_init = (Inl bad_alloc, world_init) \<and>
   make_prng_no_tls env_example None True world_init = (Inl bad_alloc, world_init)"
  using prng_pool_acquire_bad_alloc
    [of "prng_pool_init :: minstd_rand prng_pool" "fast_prng_ctor env_example" statics_init
      "world_init :: (u32 list) world" env_example]
  by (simp add: prng_pool_init_def world_init_def)

lemma pool_inv_idle: "pool_inv pool_idle"
  unfolding pool_inv_def by (rule exI [of _ "[0]"]) (simp add: pool_idle_def)

lemma example_secure_prng_ctor:
  "secure_prng_ctor env_example statics_init =
     (\<lparr>refs = 0, rng = [7, 8, 1], nxt = None\<rparr>,
      \<lparr>seed_d = Some (Data 7 8 9 10 11 12 13 14), nonce_fast = 0, nonce_secure = 1,
       nonce_tls_fast = 0, nonce_tls_secure = 0\<rparr>)"
  by (simp add: secure_prng_ctor_def prng_seed_def statics_init_def data_ctor_def
        env_example_def Let_def)

theorem prng_pool_acquire_cases_witness:
  "pool_inv pool_idle \<and> pool_inv (prng_pool_init :: minstd_rand prng_pool) \<and>
   pool_inv (prng_pool_init :: u32 list prng_pool) \<and>
   prng_pool_acquire (fast_prng_ctor env_example) (Some 3) pool_idle statics_init =
     (Inr 0, pool_held 1, statics_init) \<and>
   prng_pool_acquire (fast_prng_ctor env_example) (Some 0) prng_pool_init statics_init =
     (Inr 0, pool_held 1,
      \<lparr>seed_d = Some (Data 7 8 9 10 11 12 13 14), nonce_fast = 1, nonce_secure = 0,
       nonce_tls_fast = 0, nonce_tls_secure = 0\<rparr>) \<and>
   prng_pool_acquire (secure_prng_ctor env_example) (Some 3) prng_pool_init statics_init =
     (Inr 3,
      \<lparr>head = None, objs = (\<lambda>_. None)(3 \<mapsto> \<lparr>refs = 1, rng = [7, 8, 1], nxt = None\<rparr>)\<rparr>,
      \<lparr>seed_d = Some (Data 7 8 9 10 11 12 13 14), nonce_fast = 0, nonce_secure = 1,
       nonce_tls_fast = 0, nonce_tls_secure = 0\<rparr>)"
proof -
  note i = pool_inv_idle and j = pool_inv_init [where 'a = minstd_rand]
    and k = pool_inv_init [where 'a = "u32 list"]
  have s: "(snd (prng_seed env_example None statics_init))\<lparr>nonce_secure := 1\<rparr> =
      \<lparr>seed_d = Some (Data 7 8 9 10 11 12 13 14), nonce_fast = 0, nonce_secure = 1,
       nonce_tls_fast = 0, nonce_tls_secure = 0\<rparr>"
    by (simp add: prng_seed_def statics_init_def data_ctor_def env_example_def Let_def)
  have c: "chacha_ctor env_example (fst (prng_seed env_example None statics_init)) 1 = [7, 8, 1]"
    by (simp add: prng_seed_def statics_init_def data_ctor_def env_example_def Let_def)
  have n: "nonce_secure statics_init = 0"
    by (simp add: statics_init_def)
  have "prng_pool_acquire (fast_prng_ctor env_example) (Some 3) pool_idle statics_init =
          (Inr 0, pool_held 1, statics_init) \<and>
        prng_pool_acquire (fast_prng_ctor env_example) (Some 0) prng_pool_init statics_init =
          (Inr 0, pool_held 1,
           \<lparr>seed_d = Some (Data 7 8 9 10 11 12 13 14), nonce_fast = 1, nonce_secure = 0,
            nonce_tls_fast = 0, nonce_tls_secure = 0\<rparr>) \<and>
        prng_pool_acquire (secure_prng_ctor env_example) (Some 3) prng_pool_init statics_init =
          (Inr 3,
           \<lparr>head = None, objs = (\<lambda>_. None)(3 \<mapsto> \<lparr>refs = 1, rng = [7, 8, 1], nxt = None\<rparr>)\<rparr>,
           \<lparr>seed_d = Some (Data 7 8 9 10 11 12 13 14), nonce_fast = 0, nonce_secure = 1,
            nonce_tls_fast = 0, nonce_tls_secure = 0\<rparr>)"
    using prng_pool_acquire_cases [OF i k, of env_example "Some 3" statics_init]
      prng_pool_acquire_cases [OF j k, of env_example "Some 0" statics_init]
    by (simp add: s c n pool_idle_def pool_held_def prng_pool_init_def
          example_fast_prng_seed minstd_rand_ctor_def minstd_m_def)
  then show ?thesis
    using i j k by blast
qed


theorem pool_reuse_continues_witness:
  "pool_inv (prng_pool_init :: minstd_rand prng_pool) \<and>
   prng_pool_acquire (fast_prng_ctor env_example) (Some 0) prng_pool_init statics_init =
     (Inr 0, pool_held 1,
      \<lparr>seed_d = Some (Data 7 8 9 10 11 12 13 14), nonce_fast = 1, nonce_secure = 0,
       nonce_tls_fast = 0, nonce_tls_secure = 0\<rparr>) \<and>
   (\<exists>P4.
      prng_pool_acquire (fast_prng_ctor env_example) None
        (ref_dtor pooled_release 0 (snd (pooled_draw fast_prng_call 1 0 (pool_held 1))))
        \<lparr>seed_d = Some (Data 7 8 9 10 11 12 13 14), nonce_fast = 1, nonce_secure = 0,
         nonce_tls_fast = 0, nonce_tls_secure = 0\<rparr> =
        (Inr 0, P4,
         \<lparr>seed_d = Some (Data 7 8 9 10 11 12 13 14), nonce_fast = 1, nonce_secure = 0,
          nonce_tls_fast = 0, nonce_tls_secure = 0\<rparr>) \<and>
      objs P4 0 = Some \<lparr>refs = 1, rng = 4103035, nxt = None\<rparr> \<and>
      fst (pooled_draw fast_prng_call (1 + 1) 0 (pool_held 1)) =
        fst (pooled_draw fast_prng_call 1 0 (pool_held 1)) @
        fst (pooled_draw fast_prng_call 1 0 P4))"
proof -
  note j = pool_inv_init [where 'a = minstd_rand] and k = pool_inv_init [where 'a = "u32 list"]
  have a: "prng_pool_acquire (fast_prng_ctor env_example) (Some 0) prng_pool_init statics_init =
     (Inr 0, pool_held 1,
      \<lparr>seed_d = Some (Data 7 8 9 10 11 12 13 14), nonce_fast = 1, nonce_secure = 0,
       nonce_tls_fast = 0, nonce_tls_secure = 0\<rparr>)"
    by (simp add: acquire_miss prng_pool_init_def pool_held_def example_fast_prng_ctor)
  have o: "objs (pool_held 1) 0 = Some \<lparr>refs = 1, rng = 85, nxt = None\<rparr>"
    by (simp add: pool_held_def)
  have h: "head (pool_held 1) = None"
    by (simp add: pool_held_def)
  have v: "snd (fast_prng_call 85) = 4103035"
    by (simp add: fast_prng_call_def minstd_rand_call_def minstd_a_def minstd_m_def)
  from pool_reuse_continues [OF j k, of env_example "Some 0" statics_init None 1 1,
      THEN conjunct1, rule_format, OF a]
  show ?thesis
    using j a by (simp add: o h v)
qed

section \<open>Stream determinism\<close>

lemma tls_secure_prng_ctor_eq:
  "tls_secure_prng_ctor E g =
     (chacha_ctor E (fst (prng_seed E None g)) (nonce_tls_secure g + 1),
      (snd (prng_seed E None g))\<lparr>nonce_tls_secure := nonce_tls_secure g + 1\<rparr>)"
  by (simp add: tls_secure_prng_ctor_def case_prod_beta Let_def prng_seed_nonces)

lemma tls_fast_prng_ctor_eq:
  "tls_fast_prng_ctor E g =
     (minstd_rand_ctor (fast_seed_value (fst (prng_seed E None g)) (nonce_tls_fast g + 1)),
      (snd (prng_seed E None g))\<lparr>nonce_tls_fast := nonce_tls_fast g + 1\<rparr>)"
  by (simp add: tls_fast_prng_ctor_def case_prod_beta tls_fast_prng_seed_eq)

text \<open>
  Claim C9. Two constructions of a generator of one class, in statics that give the
  same seed material and hold the same counter of that class and are otherwise
  arbitrary, yield generators that produce the same words, for every number of
  draws. This holds for \<open>fast_prng\<close> and \<open>secure_prng\<close> of both factories.
\<close>

theorem stream_deterministic:
  assumes "fst (prng_seed E None g1) = fst (prng_seed E None g2)"
  shows "(nonce_fast g1 = nonce_fast g2 \<longrightarrow>
            draw fast_prng_call n (rng (fst (fast_prng_ctor E g1))) =
            draw fast_prng_call n (rng (fst (fast_prng_ctor E g2)))) \<and>
         (nonce_secure g1 = nonce_secure g2 \<longrightarrow>
            draw (secure_prng_call E) n (rng (fst (secure_prng_ctor E g1))) =
            draw (secure_prng_call E) n (rng (fst (secure_prng_ctor E g2)))) \<and>
         (nonce_tls_fast g1 = nonce_tls_fast g2 \<longrightarrow>
            draw fast_prng_call n (fst (tls_fast_prng_ctor E g1)) =
            draw fast_prng_call n (fst (tls_fast_prng_ctor E g2))) \<and>
         (nonce_tls_secure g1 = nonce_tls_secure g2 \<longrightarrow>
            draw (secure_prng_call E) n (fst (tls_secure_prng_ctor E g1)) =
            draw (secure_prng_call E) n (fst (tls_secure_prng_ctor E g2)))"
  using assms
  by (simp add: fast_prng_ctor_eq fast_prng_seed_eq secure_prng_ctor_eq
        tls_fast_prng_ctor_eq tls_secure_prng_ctor_eq)

lemma example_seed_other:
  "fst (prng_seed env_example None statics_init) = Data 7 8 9 10 11 12 13 14"
  "fst (prng_seed env_example None statics_other) = Data 7 8 9 10 11 12 13 14"
  by (simp_all add: prng_seed_def statics_init_def statics_other_def data_ctor_def
        env_example_def Let_def)

theorem stream_deterministic_witness:
  "fst (prng_seed env_example None statics_init) =
     fst (prng_seed env_example None statics_other) \<and>
   nonce_fast statics_init = nonce_fast statics_other \<and>
   nonce_secure statics_init = nonce_secure statics_other \<and>
   statics_init \<noteq> statics_other \<and>
   draw fast_prng_call 2 (rng (fst (fast_prng_ctor env_example statics_init))) =
     draw fast_prng_call 2 (rng (fst (fast_prng_ctor env_example statics_other))) \<and>
   draw (secure_prng_call env_example) 2 (rng (fst (secure_prng_ctor env_example statics_init))) =
     draw (secure_prng_call env_example) 2
       (rng (fst (secure_prng_ctor env_example statics_other)))"
proof -
  have s: "fst (prng_seed env_example None statics_init) =
      fst (prng_seed env_example None statics_other)"
    by (simp only: example_seed_other)
  have n: "nonce_fast statics_init = nonce_fast statics_other"
    "nonce_secure statics_init = nonce_secure statics_other"
    "statics_init \<noteq> statics_other"
    by (simp_all add: statics_init_def statics_other_def)
  show ?thesis
    using stream_deterministic [OF s, of 2] s n by blast
qed

section \<open>The thread-exclusive strategy\<close>

text \<open>
  Claim C8. On the objects of \<^verbatim>\<open>make_prng_tls\<close>, \<open>acquire\<close> returns the same
  object and changes nothing, and \<open>release\<close> changes nothing. A call of
  \<^verbatim>\<open>make_prng_tls\<close> by thread \<open>t\<close> returns that thread's object of the chosen
  class, and a second call by the same thread returns the same object and leaves
  the state as the first call left it.
\<close>

theorem tls_acquire_release_noop:
  "acquire (Fast_tls t) w = (Fast_tls t, w) \<and>
   acquire (Secure_tls t) w = (Secure_tls t, w) \<and>
   release (Fast_tls t) w = w \<and>
   release (Secure_tls t) w = w \<and>
   fst (make_prng_tls E t secure w) = (if secure then Secure_tls t else Fast_tls t) \<and>
   make_prng_tls E t secure (snd (make_prng_tls E t secure w)) = make_prng_tls E t secure w"
  by (simp add: make_prng_tls_def ref_ctor_def case_prod_beta Let_def split: option.splits)

end
